theory Spec2Isabelle
  imports Main "HOL-Library.Multiset" "HOL-Library.Product_Lexorder"
begin

section \<open>Data model of runtimeExtensionsEditor.ts\<close>

text \<open>
  The TypeScript type \<open>number\<close> is modelled as \<open>int\<close>: the times of a profile are
  integer microsecond counts (the sample in the constructor's comment is
  \<open>startTime: 1511954813493000\<close>), on which JavaScript's arithmetic is exact as long
  as every value stays within \<open>2 ^ 53\<close> in magnitude. Beyond that range a \<open>number\<close>, an
  IEEE double, rounds: the section on doubles below writes the rounding of the grouping
  loop out and shows that within the range it is the loop modelled here.
  Array indices and \<open>originalIndex\<close> are \<open>nat\<close>.
  A property that may be \<open>undefined\<close> or \<open>null\<close> is an \<open>option\<close>; reading a property
  of \<open>undefined\<close>/\<open>null\<close> raises \<open>TypeError\<close>.
\<close>

datatype error = TypeError

text \<open>interface IExtensionProfileInformation: \<open>segments\<close> is flat,
  \<open>2*i\<close> = segment start time, \<open>2*i+1\<close> = segment end time.\<close>

record IExtensionProfileInformation =
  segments :: "int list"
  totalTime :: int

text \<open>
  The interfaces below are imported by the file from other modules; they are modelled
  by the properties this file reads (\<open>status.activationTimes\<close>, \<open>status.messages\<close>,
  \<open>extension.id\<close>, \<open>extension.main\<close>, \<open>_profileInfo.startTime\<close>, \<open>.deltas\<close>, \<open>.ids\<close>, ...).
\<close>

record IActivationTimes =
  startup :: bool
  codeLoadingTime :: int
  activateCallTime :: int
  activationEvent :: string

record IExtensionsStatus =
  messages :: "string list option"
  activationTimes :: "IActivationTimes option"

record IExtensionDescription =
  description_id :: string
  name :: string
  version :: string
  main :: "string option"

record IExtension =
  extension_id :: string
  displayName :: string

record IExtensionHostProfile =
  startTime :: int
  endTime :: int
  deltas :: "int list"
  ids :: "string list"

record IRuntimeExtension =
  originalIndex :: nat
  description :: IExtensionDescription
  marketplaceInfo :: "IExtension option"
  status :: "IExtensionsStatus option"
  profileInfo :: "IExtensionProfileInformation option"

text \<open>
  What \<open>_resolveExtensions\<close> reads: \<open>this._extensionsWorkbenchService.local\<close>,
  \<open>this._extensionService.getExtensionsStatus()\<close>, \<open>this._profileInfo\<close> and
  \<open>this._extensionsDescriptions\<close>. The list widget and \<open>_elements\<close>, which only
  receive the resolved list, are presentation state and are left out.
\<close>

record RuntimeExtensionsEditor =
  extensionsWorkbenchService_local :: "IExtension list"
  extensionService_getExtensionsStatus :: "string \<rightharpoonup> IExtensionsStatus"
  editor_profileInfo :: "IExtensionHostProfile option"
  extensionsDescriptions :: "IExtensionDescription list"

section \<open>\<open>_resolveExtensions\<close>\<close>

subsection \<open>The marketplace map (lines 129-132)\<close>

definition marketplaceMap :: "IExtension list \<Rightarrow> (string \<rightharpoonup> IExtension)" where
  "marketplaceMap local_extensions =
     fold (\<lambda>extension m. m(extension_id extension \<mapsto> extension)) local_extensions Map.empty"

subsection \<open>Grouping the profile segments by extension (lines 137-155)\<close>

text \<open>\<open>this._profileInfo.ids[i]\<close> used as a property key: past the end of \<open>ids\<close> the
  read is \<open>undefined\<close>, which as a key is the string \<open>undefined\<close>.\<close>

definition id_at :: "string list \<Rightarrow> nat \<Rightarrow> string" where
  "id_at xs i = (if i < length xs then xs ! i else ''undefined'')"

text \<open>One pass of the loop body, on the pair (\<open>segments\<close>, \<open>currentStartTime\<close>).
  The loop runs \<open>i\<close> below \<open>deltas.length\<close>, so \<open>deltas[i]\<close> is in range.\<close>

definition segment_step ::
  "IExtensionHostProfile \<Rightarrow> nat \<Rightarrow> (string \<rightharpoonup> int list) \<times> int \<Rightarrow> (string \<rightharpoonup> int list) \<times> int" where
  "segment_step p i st =
     (case st of (segs, currentStartTime) \<Rightarrow>
        let ident = id_at (ids p) i;
            delta = deltas p ! i;
            extensionSegments = (case segs ident of None \<Rightarrow> [] | Some s \<Rightarrow> s);
            pushed = extensionSegments @ [currentStartTime];
            currentStartTime' = currentStartTime + delta
        in (segs(ident \<mapsto> pushed @ [currentStartTime']), currentStartTime'))"

definition group_segments :: "IExtensionHostProfile option \<Rightarrow> (string \<rightharpoonup> int list)" where
  "group_segments pi =
     (case pi of
        None \<Rightarrow> Map.empty
      | Some p \<Rightarrow> fst (fold (segment_step p) [0..<length (deltas p)] (Map.empty, startTime p)))"

subsection \<open>One record per description (lines 157-183)\<close>

text \<open>The inner loop \<open>for j < extensionSegments.length / 2\<close>. Every array stored by the
  grouping loop has even length (lemma \<open>group_segments_even\<close> below), so \<open>length / 2\<close> is
  the integer \<open>length div 2\<close> and both reads are in range.\<close>

definition extensionTotalTime :: "int list \<Rightarrow> int" where
  "extensionTotalTime extensionSegments =
     fold (\<lambda>j total. total + (extensionSegments ! (2 * j + 1) - extensionSegments ! (2 * j)))
       [0..<length extensionSegments div 2] 0"

text \<open>\<open>segments[extensionDescription.id] || []\<close>: an array is truthy, also the empty one.\<close>

definition extensionProfileInfo ::
  "(string \<rightharpoonup> int list) \<Rightarrow> string \<Rightarrow> IExtensionProfileInformation" where
  "extensionProfileInfo segs ident =
     (let extensionSegments = (case segs ident of None \<Rightarrow> [] | Some s \<Rightarrow> s)
      in \<lparr>segments = extensionSegments, totalTime = extensionTotalTime extensionSegments\<rparr>)"

definition make_element ::
  "RuntimeExtensionsEditor \<Rightarrow> (string \<rightharpoonup> IExtension) \<Rightarrow> (string \<rightharpoonup> int list) \<Rightarrow> nat \<Rightarrow> IRuntimeExtension" where
  "make_element ed mm segs i =
     (let extensionDescription = extensionsDescriptions ed ! i
      in \<lparr>originalIndex = i,
          description = extensionDescription,
          marketplaceInfo = mm (description_id extensionDescription),
          status = extensionService_getExtensionsStatus ed (description_id extensionDescription),
          profileInfo =
            (case editor_profileInfo ed of
               None \<Rightarrow> None
             | Some p \<Rightarrow> Some (extensionProfileInfo segs (description_id extensionDescription)))\<rparr>)"

subsection \<open>The filter (line 185)\<close>

text \<open>\<open>result.filter((element) => element.status.activationTimes)\<close>: the callback reads
  a property of \<open>element.status\<close>, which raises when the status map has no entry.\<close>

fun filter_activated :: "IRuntimeExtension list \<Rightarrow> error + IRuntimeExtension list" where
  "filter_activated [] = Inr []"
| "filter_activated (element # rest) =
     (case status element of
        None \<Rightarrow> Inl TypeError
      | Some s \<Rightarrow>
          (case filter_activated rest of
             Inl e \<Rightarrow> Inl e
           | Inr kept \<Rightarrow> Inr (if activationTimes s \<noteq> None then element # kept else kept)))"

subsection \<open>The sort (lines 187-195)\<close>

text \<open>The comparator. \<open>a.profileInfo.totalTime\<close> raises on a null \<open>profileInfo\<close>.\<close>

definition compareFn :: "IRuntimeExtension \<Rightarrow> IRuntimeExtension \<Rightarrow> error + int" where
  "compareFn a b =
     (case (profileInfo a, profileInfo b) of
        (Some pa, Some pb) \<Rightarrow>
          Inr (if totalTime pa = totalTime pb
               then int (originalIndex a) - int (originalIndex b)
               else totalTime pb - totalTime pa)
      | _ \<Rightarrow> Inl TypeError)"

text \<open>
  \<open>Array.prototype.sort\<close> belongs to the host language. It is modelled as an insertion
  sort that places \<open>a\<close> before \<open>b\<close> when the comparator returns a value \<open>\<le> 0\<close>, and
  that passes on what the comparator raises. What is proved of the result does not
  rest on this choice: every arrangement of the same records that the comparator
  accepts is shown to be the one computed here.
\<close>

fun insert_sorted :: "('a \<Rightarrow> 'a \<Rightarrow> error + int) \<Rightarrow> 'a \<Rightarrow> 'a list \<Rightarrow> error + 'a list" where
  "insert_sorted cmp x [] = Inr [x]"
| "insert_sorted cmp x (y # ys) =
     (case cmp x y of
        Inl e \<Rightarrow> Inl e
      | Inr c \<Rightarrow>
          if c \<le> 0 then Inr (x # y # ys)
          else (case insert_sorted cmp x ys of Inl e \<Rightarrow> Inl e | Inr zs \<Rightarrow> Inr (y # zs)))"

fun array_sort :: "('a \<Rightarrow> 'a \<Rightarrow> error + int) \<Rightarrow> 'a list \<Rightarrow> error + 'a list" where
  "array_sort cmp [] = Inr []"
| "array_sort cmp (x # xs) =
     (case array_sort cmp xs of Inl e \<Rightarrow> Inl e | Inr ys \<Rightarrow> insert_sorted cmp x ys)"

subsection \<open>The whole function\<close>

text \<open>Lines 129-183: the maps, and \<open>result[i]\<close> for every \<open>i\<close> below
  \<open>this._extensionsDescriptions.length\<close>.\<close>

definition build_result :: "RuntimeExtensionsEditor \<Rightarrow> IRuntimeExtension list" where
  "build_result ed =
     (let mm = marketplaceMap (extensionsWorkbenchService_local ed);
          segs = group_segments (editor_profileInfo ed)
      in map (make_element ed mm segs) [0..<length (extensionsDescriptions ed)])"

definition resolveExtensions :: "RuntimeExtensionsEditor \<Rightarrow> error + IRuntimeExtension list" where
  "resolveExtensions ed =
     (case filter_activated (build_result ed) of
        Inl e \<Rightarrow> Inl e
      | Inr kept \<Rightarrow>
          (case editor_profileInfo ed of
             None \<Rightarrow> Inr kept
           | Some p \<Rightarrow> array_sort compareFn kept))"

section \<open>Notions used to state the properties\<close>

text \<open>The (label, delta) pairs of a profile, as the grouping loop reads them: one pair
  for every index below \<open>deltas.length\<close>.\<close>

definition trace_pairs :: "IExtensionHostProfile \<Rightarrow> (string \<times> int) list" where
  "trace_pairs p = map (\<lambda>i. (id_at (ids p) i, deltas p ! i)) [0..<length (deltas p)]"

text \<open>The segmenter as the specification words it: a running cursor; for each
  (label, delta) in order, the interval from cursor to cursor + delta goes to the
  label's list, then the cursor advances by delta.\<close>

fun spec_intervals :: "int \<Rightarrow> (string \<times> int) list \<Rightarrow> string \<Rightarrow> (int \<times> int) list" where
  "spec_intervals cursor [] l = []"
| "spec_intervals cursor ((l', delta) # rest) l =
     (if l' = l then [(cursor, cursor + delta)] else []) @ spec_intervals (cursor + delta) rest l"

text \<open>The flat layout of \<open>IExtensionProfileInformation.segments\<close>, and its reading
  (\<open>segments[2 * j]\<close>, \<open>segments[2 * j + 1]\<close> for \<open>j < length / 2\<close>, as in lines 165-167).\<close>

fun flatten_intervals :: "(int \<times> int) list \<Rightarrow> int list" where
  "flatten_intervals [] = []"
| "flatten_intervals ((s, e) # rest) = s # e # flatten_intervals rest"

definition segment_pairs :: "int list \<Rightarrow> (int \<times> int) list" where
  "segment_pairs segs = map (\<lambda>j. (segs ! (2 * j), segs ! (2 * j + 1))) [0..<length segs div 2]"

definition interval_length :: "int \<times> int \<Rightarrow> int" where
  "interval_length iv = snd iv - fst iv"

text \<open>The profile information that \<open>_resolveExtensions\<close> attaches to the extension
  \<open>ident\<close> under the profile \<open>p\<close>.\<close>

definition profile_of :: "IExtensionHostProfile \<Rightarrow> string \<Rightarrow> IExtensionProfileInformation" where
  "profile_of p ident = extensionProfileInfo (group_segments (Some p)) ident"

text \<open>The filter's test on a record whose status is present.\<close>

definition activated :: "IRuntimeExtension \<Rightarrow> bool" where
  "activated element =
     (case status element of None \<Rightarrow> False | Some s \<Rightarrow> activationTimes s \<noteq> None)"

text \<open>\<open>a\<close> stands strictly before \<open>b\<close>: more total time, or the same total time and a
  smaller \<open>originalIndex\<close>.\<close>

definition ordered_before :: "IRuntimeExtension \<Rightarrow> IRuntimeExtension \<Rightarrow> bool" where
  "ordered_before a b =
     (case (profileInfo a, profileInfo b) of
        (Some pa, Some pb) \<Rightarrow>
          totalTime pb < totalTime pa \<or>
          (totalTime pa = totalTime pb \<and> originalIndex a < originalIndex b)
      | _ \<Rightarrow> False)"

text \<open>The comparator accepts \<open>a\<close> before \<open>b\<close>: it returns a value \<open>\<le> 0\<close>.\<close>

definition accepts :: "IRuntimeExtension \<Rightarrow> IRuntimeExtension \<Rightarrow> bool" where
  "accepts a b = (case compareFn a b of Inl e \<Rightarrow> False | Inr c \<Rightarrow> c \<le> 0)"

text \<open>The key of the order: total time descending, then \<open>originalIndex\<close> ascending,
  compared lexicographically.\<close>

definition order_key :: "IRuntimeExtension \<Rightarrow> int \<times> nat" where
  "order_key a =
     (case profileInfo a of None \<Rightarrow> (0, originalIndex a) | Some pa \<Rightarrow> (- totalTime pa, originalIndex a))"

text \<open>Whether the description at position \<open>i\<close> has a status with activation times.\<close>

definition activated_at :: "RuntimeExtensionsEditor \<Rightarrow> nat \<Rightarrow> bool" where
  "activated_at ed i =
     (case extensionService_getExtensionsStatus ed (description_id (extensionsDescriptions ed ! i)) of
        None \<Rightarrow> False
      | Some s \<Rightarrow> activationTimes s \<noteq> None)"

text \<open>A record with its marketplace field blanked: what is left does not depend on
  \<open>this._extensionsWorkbenchService.local\<close>.\<close>

definition erase_marketplaceInfo :: "IRuntimeExtension \<Rightarrow> IRuntimeExtension" where
  "erase_marketplaceInfo x = x\<lparr>marketplaceInfo := None\<rparr>"

text \<open>An earlier interval ends no later than a later one starts; two half-open
  intervals share no instant.\<close>

definition precedes :: "int \<times> int \<Rightarrow> int \<times> int \<Rightarrow> bool" where
  "precedes a b = (snd a \<le> fst b)"

definition disjoint_intervals :: "int \<times> int \<Rightarrow> int \<times> int \<Rightarrow> bool" where
  "disjoint_intervals a b = ({fst a..<snd a} \<inter> {fst b..<snd b} = {})"

text \<open>The body of the grouping loop on one (label, delta) pair, and the array stored
  under a label (empty when there is none); both serve the proofs only.\<close>

definition pair_step :: "string \<times> int \<Rightarrow> (string \<rightharpoonup> int list) \<times> int \<Rightarrow> (string \<rightharpoonup> int list) \<times> int" where
  "pair_step pr st =
     (case st of (segs, cur) \<Rightarrow>
        (segs(fst pr \<mapsto> (case segs (fst pr) of None \<Rightarrow> [] | Some s \<Rightarrow> s) @ [cur, cur + snd pr]),
         cur + snd pr))"

definition stored :: "(string \<rightharpoonup> int list) \<Rightarrow> string \<Rightarrow> int list" where
  "stored segs l = (case segs l of None \<Rightarrow> [] | Some s \<Rightarrow> s)"

section \<open>The grouping loop on IEEE doubles\<close>

text \<open>
  A \<open>number\<close> is an IEEE double: 53 significant bits, every operation rounded to the
  nearest double, ties to the even significand. On integer values, the doubles of
  magnitude below \<open>2 ^ 53\<close> are spaced 1 apart, those from \<open>2 ^ 53\<close> to \<open>2 ^ 54\<close> are
  spaced 2 apart, and so on, the spacing doubling with every power of two.
  (Sums that reach \<open>2 ^ 1024\<close> in magnitude overflow in the source; they are not
  considered.)
\<close>

function double_spacing :: "int \<Rightarrow> int" where
  "double_spacing n = (if n < 2 ^ 53 then 1 else 2 * double_spacing (n div 2))"
  by pat_completeness auto
termination
  by (relation "measure nat") auto

declare double_spacing.simps [simp del]

text \<open>The double nearest to the integer \<open>x\<close>: the nearest multiple of the spacing at
  \<open>x\<close>, the even multiple when \<open>x\<close> is halfway.\<close>

definition round_double :: "int \<Rightarrow> int" where
  "round_double x =
     (let q = double_spacing \<bar>x\<bar>; k = x div q; r = x mod q
      in if 2 * r < q then k * q
         else if q < 2 * r then (k + 1) * q
         else if even k then k * q else (k + 1) * q)"

text \<open>Lines 141-154 with the rounding of \<open>currentStartTime + delta\<close> (line 152) written
  out, and \<open>segments[id] || []\<close> of line 163 on its result.\<close>

definition segment_step_double ::
  "IExtensionHostProfile \<Rightarrow> nat \<Rightarrow> (string \<rightharpoonup> int list) \<times> int \<Rightarrow> (string \<rightharpoonup> int list) \<times> int" where
  "segment_step_double p i st =
     (case st of (segs, currentStartTime) \<Rightarrow>
        let ident = id_at (ids p) i;
            delta = deltas p ! i;
            extensionSegments = (case segs ident of None \<Rightarrow> [] | Some s \<Rightarrow> s);
            pushed = extensionSegments @ [currentStartTime];
            currentStartTime' = round_double (currentStartTime + delta)
        in (segs(ident \<mapsto> pushed @ [currentStartTime']), currentStartTime'))"

definition group_segments_double :: "IExtensionHostProfile \<Rightarrow> (string \<rightharpoonup> int list)" where
  "group_segments_double p =
     fst (fold (segment_step_double p) [0..<length (deltas p)] (Map.empty, startTime p))"

definition segments_double :: "IExtensionHostProfile \<Rightarrow> string \<Rightarrow> int list" where
  "segments_double p ident = (case group_segments_double p ident of None \<Rightarrow> [] | Some s \<Rightarrow> s)"

text \<open>The lengths end - start of the intervals produced for a label, summed.\<close>

definition label_lengths_double :: "IExtensionHostProfile \<Rightarrow> string \<Rightarrow> int" where
  "label_lengths_double p l = sum_list (map interval_length (segment_pairs (segments_double p l)))"

text \<open>The values the cursor takes: \<open>startTime\<close>, then \<open>startTime\<close> plus the first delta,
  and so on to the end. A trace is exact when all of them are at most \<open>2 ^ 53\<close> in
  magnitude, so that no addition of the loop rounds.\<close>

fun cursors :: "int \<Rightarrow> int list \<Rightarrow> int list" where
  "cursors c [] = [c]"
| "cursors c (d # ds) = c # cursors (c + d) ds"

definition exact_trace :: "IExtensionHostProfile \<Rightarrow> bool" where
  "exact_trace p = list_all (\<lambda>c. \<bar>c\<bar> \<le> 2 ^ 53) (cursors (startTime p) (deltas p))"

text \<open>The body of the rounding loop on one (label, delta) pair; it serves the proofs only.\<close>

definition pair_step_double ::
  "string \<times> int \<Rightarrow> (string \<rightharpoonup> int list) \<times> int \<Rightarrow> (string \<rightharpoonup> int list) \<times> int" where
  "pair_step_double pr st =
     (case st of (segs, cur) \<Rightarrow>
        (segs(fst pr \<mapsto> (case segs (fst pr) of None \<Rightarrow> [] | Some s \<Rightarrow> s) @
                           [cur, round_double (cur + snd pr)]),
         round_double (cur + snd pr)))"

section \<open>\<open>ExtensionHostProfileAction\<close>\<close>

text \<open>\<open>const enum ProfileSessionState { None = 0, Starting = 1, Running = 2, Stopping = 3 }\<close>;
  the constructors carry a prefix because \<open>None\<close> is the empty option.\<close>

datatype ProfileSessionState = State_None | State_Starting | State_Running | State_Stopping

text \<open>A \<open>ProfileSession\<close> is an object of the extension service; only its identity
  matters here. \<open>startExtensionHostProfile()\<close> is typed \<open>TPromise<ProfileSession>\<close>:
  it is fulfilled with a session, never with \<open>null\<close>.\<close>

type_synonym ProfileSession = nat

text \<open>The fields \<open>_profileSession\<close> and \<open>_state\<close>, and the \<open>class\<close> and \<open>label\<close> of the
  \<open>Action\<close> base class that \<open>update()\<close> writes.\<close>

record ExtensionHostProfileAction =
  profileSession :: "ProfileSession option"
  state :: ProfileSessionState
  css_class :: string
  label :: string

definition LABEL_START :: string where "LABEL_START = ''Start Extension Host Profile''"

definition LABEL_STOP :: string where "LABEL_STOP = ''Stop Extension Host Profile''"

definition STOP_CSS_CLASS :: string where "STOP_CSS_CLASS = ''extension-host-profile-stop''"

definition START_CSS_CLASS :: string where "START_CSS_CLASS = ''extension-host-profile-start''"

text \<open>\<open>update()\<close> (lines 498-506) and \<open>_setState\<close> (lines 508-511).\<close>

definition update :: "ExtensionHostProfileAction \<Rightarrow> ExtensionHostProfileAction" where
  "update a =
     (if profileSession a \<noteq> None
      then a\<lparr>css_class := STOP_CSS_CLASS, label := LABEL_STOP\<rparr>
      else a\<lparr>css_class := START_CSS_CLASS, label := LABEL_START\<rparr>)"

definition setState :: "ProfileSessionState \<Rightarrow> ExtensionHostProfileAction \<Rightarrow> ExtensionHostProfileAction" where
  "setState s a = update (a\<lparr>state := s\<rparr>)"

text \<open>The constructor (lines 488-496): \<open>super(id, label, START_CSS_CLASS)\<close> with the
  label \<open>LABEL_START\<close> that \<open>getActions\<close> passes, \<open>_profileSession = null\<close>,
  \<open>_setState(ProfileSessionState.None)\<close>.\<close>

definition new_action :: ExtensionHostProfileAction where
  "new_action =
     setState State_None
       \<lparr>profileSession = None, state = State_None, css_class = START_CSS_CLASS, label = LABEL_START\<rparr>"

text \<open>\<open>setProfileInfo\<close> of the editor (lines 116-119): the field is written, then
  \<open>_updateExtensions\<close> calls \<open>_resolveExtensions\<close>. The first component tells whether
  that call raised; the field keeps the new profile either way.\<close>

definition setProfileInfo ::
  "IExtensionHostProfile \<Rightarrow> RuntimeExtensionsEditor \<Rightarrow> error option \<times> RuntimeExtensionsEditor" where
  "setProfileInfo pi ed =
     (let ed' = ed\<lparr>editor_profileInfo := Some pi\<rparr>
      in (case resolveExtensions ed' of Inl e \<Rightarrow> (Some e, ed') | Inr elements \<Rightarrow> (None, ed')))"

text \<open>The calls the action makes to its collaborators, in the order made.\<close>

datatype call =
  Call_startExtensionHostProfile
  | Call_stop ProfileSession
  | Call_onUnexpectedError string
  | Call_setProfileInfo IExtensionHostProfile
  | Call_console_log_profile IExtensionHostProfile
  | Call_console_log string

text \<open>The action together with what surrounds it: the parent editor, the promises of
  \<open>startExtensionHostProfile()\<close> and of \<open>stop()\<close> that are not settled yet, and the
  calls made so far.\<close>

record world =
  action :: ExtensionHostProfileAction
  parentEditor :: RuntimeExtensionsEditor
  pending_start :: nat
  pending_stop :: nat
  calls :: "call list"

definition new_world :: "RuntimeExtensionsEditor \<Rightarrow> world" where
  "new_world ed =
     \<lparr>action = new_action, parentEditor = ed, pending_start = 0, pending_stop = 0, calls = []\<rparr>"

text \<open>\<open>run()\<close> (lines 513-545), up to the point where it returns. In the \<open>Running\<close>
  case \<open>_setState(Stopping)\<close> comes first, then \<open>this._profileSession.stop()\<close>, which
  raises on a null session, and \<open>this._profileSession = null\<close> last (without
  \<open>update()\<close>). The result tells whether \<open>run\<close> raised.\<close>

definition run :: "world \<Rightarrow> error option \<times> world" where
  "run w =
     (case state (action w) of
        State_None \<Rightarrow>
          (None, w\<lparr>action := setState State_Starting (action w),
                   calls := calls w @ [Call_startExtensionHostProfile],
                   pending_start := Suc (pending_start w)\<rparr>)
      | State_Starting \<Rightarrow> (None, w)
      | State_Running \<Rightarrow>
          (let a = setState State_Stopping (action w)
           in case profileSession a of
                None \<Rightarrow> (Some TypeError, w\<lparr>action := a\<rparr>)
              | Some session \<Rightarrow>
                  (None, w\<lparr>action := a\<lparr>profileSession := None\<rparr>,
                           calls := calls w @ [Call_stop session],
                           pending_stop := Suc (pending_stop w)\<rparr>))
      | State_Stopping \<Rightarrow> (None, w))"

text \<open>The four promise callbacks: lines 517-520, 520-523, 529-534 and 534-537.
  In the success callback of \<open>stop()\<close>, an exception of \<open>setProfileInfo\<close> ends the
  callback before \<open>_setState(ProfileSessionState.None)\<close>.\<close>

definition start_fulfilled :: "ProfileSession \<Rightarrow> world \<Rightarrow> world" where
  "start_fulfilled v w =
     w\<lparr>action := setState State_Running ((action w)\<lparr>profileSession := Some v\<rparr>)\<rparr>"

definition start_rejected :: "string \<Rightarrow> world \<Rightarrow> world" where
  "start_rejected err w =
     w\<lparr>calls := calls w @ [Call_onUnexpectedError err],
       action := setState State_None (action w)\<rparr>"

definition stop_fulfilled :: "IExtensionHostProfile \<Rightarrow> world \<Rightarrow> world" where
  "stop_fulfilled result w =
     (case setProfileInfo result (parentEditor w) of
        (Some e, ed') \<Rightarrow>
          w\<lparr>parentEditor := ed', calls := calls w @ [Call_setProfileInfo result]\<rparr>
      | (None, ed') \<Rightarrow>
          w\<lparr>parentEditor := ed',
            calls := calls w @ [Call_setProfileInfo result, Call_console_log_profile result,
                                Call_console_log ''here here''],
            action := setState State_None (action w)\<rparr>)"

definition stop_rejected :: "string \<Rightarrow> world \<Rightarrow> world" where
  "stop_rejected err w =
     w\<lparr>calls := calls w @ [Call_onUnexpectedError err],
       action := setState State_None (action w)\<rparr>"

text \<open>What can happen to the action: a call of \<open>run()\<close>, the settling of an
  outstanding promise (not possible, \<open>None\<close>, when no such promise is outstanding),
  or a change of what the editor reads from its services. All of them happen on the
  one thread of control, one after the other.\<close>

datatype event =
  Run
  | StartFulfilled ProfileSession
  | StartRejected string
  | StopFulfilled IExtensionHostProfile
  | StopRejected string
  | EditorInputs "IExtension list" "(string \<times> IExtensionsStatus) list" "IExtensionDescription list"

fun step :: "event \<Rightarrow> world \<Rightarrow> world option" where
  "step Run w = Some (snd (run w))"
| "step (StartFulfilled v) w =
     (if pending_start w = 0 then None
      else Some (start_fulfilled v (w\<lparr>pending_start := pending_start w - 1\<rparr>)))"
| "step (StartRejected err) w =
     (if pending_start w = 0 then None
      else Some (start_rejected err (w\<lparr>pending_start := pending_start w - 1\<rparr>)))"
| "step (StopFulfilled result) w =
     (if pending_stop w = 0 then None
      else Some (stop_fulfilled result (w\<lparr>pending_stop := pending_stop w - 1\<rparr>)))"
| "step (StopRejected err) w =
     (if pending_stop w = 0 then None
      else Some (stop_rejected err (w\<lparr>pending_stop := pending_stop w - 1\<rparr>)))"
| "step (EditorInputs l st ds) w =
     Some (w\<lparr>parentEditor := (parentEditor w)
              \<lparr>extensionsWorkbenchService_local := l,
               extensionService_getExtensionsStatus := map_of st,
               extensionsDescriptions := ds\<rparr>\<rparr>)"

fun exec :: "event list \<Rightarrow> world \<Rightarrow> world option" where
  "exec [] w = Some w"
| "exec (ev # evs) w = (case step ev w of None \<Rightarrow> None | Some w' \<Rightarrow> exec evs w')"

text \<open>The calls made between two worlds.\<close>

definition new_calls :: "world \<Rightarrow> world \<Rightarrow> call list" where
  "new_calls w w' = drop (length (calls w)) (calls w')"

text \<open>The invariant that ties the state to the session handle and to the outstanding
  promises.\<close>

definition consistent :: "world \<Rightarrow> bool" where
  "consistent w =
     (case state (action w) of
        State_None \<Rightarrow> profileSession (action w) = None \<and> pending_start w = 0 \<and> pending_stop w = 0
      | State_Starting \<Rightarrow> profileSession (action w) = None \<and> pending_start w = 1 \<and> pending_stop w = 0
      | State_Running \<Rightarrow> profileSession (action w) \<noteq> None \<and> pending_start w = 0 \<and> pending_stop w = 0
      | State_Stopping \<Rightarrow> profileSession (action w) = None \<and> pending_start w = 0 \<and> pending_stop w \<le> 1)"

section \<open>Example inputs\<close>

definition example_activation :: IActivationTimes where
  "example_activation =
     \<lparr>startup = True, codeLoadingTime = 3, activateCallTime = 4, activationEvent = ''*''\<rparr>"

definition status_activated :: IExtensionsStatus where
  "status_activated = \<lparr>messages = None, activationTimes = Some example_activation\<rparr>"

definition status_never_activated :: IExtensionsStatus where
  "status_never_activated = \<lparr>messages = None, activationTimes = None\<rparr>"

definition example_description :: "string \<Rightarrow> IExtensionDescription" where
  "example_description ident =
     \<lparr>description_id = ident, name = ident, version = ''1.0.0'', main = Some ''./out/main''\<rparr>"

text \<open>The trace of the specification's scenario: start 1000, (A, 500), (B, 300), (A, 200).\<close>

definition example_trace :: IExtensionHostProfile where
  "example_trace =
     \<lparr>startTime = 1000, endTime = 2000, deltas = [500, 300, 200], ids = [''A'', ''B'', ''A'']\<rparr>"

text \<open>A trace with a negative delta, whose deltas still sum to \<open>endTime - startTime\<close>.\<close>

definition negative_delta_trace :: IExtensionHostProfile where
  "negative_delta_trace =
     \<lparr>startTime = 0, endTime = 8, deltas = [10, - 5, 3], ids = [''A'', ''B'', ''A'']\<rparr>"

text \<open>A trace at the edge of the exactly represented integers: start \<open>2 ^ 53\<close>, two deltas
  of 1 for A, end \<open>2 ^ 53 + 2\<close>. All its numbers are doubles.\<close>

definition rounding_trace :: IExtensionHostProfile where
  "rounding_trace =
     \<lparr>startTime = 9007199254740992, endTime = 9007199254740994, deltas = [1, 1],
      ids = [''A'', ''A'']\<rparr>"

text \<open>Descriptions [A, B, C]; A and C have activation times, B has a status without
  them; no profile.\<close>

definition example_editor :: RuntimeExtensionsEditor where
  "example_editor =
     \<lparr>extensionsWorkbenchService_local = [],
      extensionService_getExtensionsStatus =
        [''A'' \<mapsto> status_activated, ''B'' \<mapsto> status_never_activated, ''C'' \<mapsto> status_activated],
      editor_profileInfo = None,
      extensionsDescriptions = [example_description ''A'', example_description ''B'', example_description ''C'']\<rparr>"

definition example_result :: "IRuntimeExtension list" where
  "example_result =
     [\<lparr>originalIndex = 0, description = example_description ''A'', marketplaceInfo = None,
       status = Some status_activated, profileInfo = None\<rparr>,
      \<lparr>originalIndex = 2, description = example_description ''C'', marketplaceInfo = None,
       status = Some status_activated, profileInfo = None\<rparr>]"

text \<open>The same, but the status map has no entry for B.\<close>

definition missing_status_editor :: RuntimeExtensionsEditor where
  "missing_status_editor =
     \<lparr>extensionsWorkbenchService_local = [],
      extensionService_getExtensionsStatus = [''A'' \<mapsto> status_activated, ''C'' \<mapsto> status_activated],
      editor_profileInfo = None,
      extensionsDescriptions = [example_description ''A'', example_description ''B'', example_description ''C'']\<rparr>"

definition example_marketplace :: "IExtension list" where
  "example_marketplace =
     [\<lparr>extension_id = ''C'', displayName = ''Extension C''\<rparr>,
      \<lparr>extension_id = ''A'', displayName = ''Extension A''\<rparr>]"

text \<open>Descriptions [B, A, C], all activated, under the example trace.\<close>

definition example_profiled_editor :: RuntimeExtensionsEditor where
  "example_profiled_editor =
     \<lparr>extensionsWorkbenchService_local = [],
      extensionService_getExtensionsStatus =
        [''A'' \<mapsto> status_activated, ''B'' \<mapsto> status_activated, ''C'' \<mapsto> status_activated],
      editor_profileInfo = Some example_trace,
      extensionsDescriptions = [example_description ''B'', example_description ''A'', example_description ''C'']\<rparr>"

definition example_profiled_result :: "IRuntimeExtension list" where
  "example_profiled_result =
     [\<lparr>originalIndex = 1, description = example_description ''A'', marketplaceInfo = None,
       status = Some status_activated,
       profileInfo = Some \<lparr>segments = [1000, 1500, 1800, 2000], totalTime = 700\<rparr>\<rparr>,
      \<lparr>originalIndex = 0, description = example_description ''B'', marketplaceInfo = None,
       status = Some status_activated,
       profileInfo = Some \<lparr>segments = [1500, 1800], totalTime = 300\<rparr>\<rparr>,
      \<lparr>originalIndex = 2, description = example_description ''C'', marketplaceInfo = None,
       status = Some status_activated,
       profileInfo = Some \<lparr>segments = [], totalTime = 0\<rparr>\<rparr>]"

text \<open>Worlds of the action: after \<open>run()\<close>; after the start succeeded with session 7;
  after a further \<open>run()\<close>; after that stop failed; after the start failed.\<close>

definition example_starting :: world where
  "example_starting =
     \<lparr>action = \<lparr>profileSession = None, state = State_Starting,
                 css_class = START_CSS_CLASS, label = LABEL_START\<rparr>,
      parentEditor = example_editor, pending_start = 1, pending_stop = 0,
      calls = [Call_startExtensionHostProfile]\<rparr>"

definition example_running :: world where
  "example_running =
     \<lparr>action = \<lparr>profileSession = Some 7, state = State_Running,
                 css_class = STOP_CSS_CLASS, label = LABEL_STOP\<rparr>,
      parentEditor = example_editor, pending_start = 0, pending_stop = 0,
      calls = [Call_startExtensionHostProfile]\<rparr>"

definition example_stopping :: world where
  "example_stopping =
     \<lparr>action = \<lparr>profileSession = None, state = State_Stopping,
                 css_class = STOP_CSS_CLASS, label = LABEL_STOP\<rparr>,
      parentEditor = example_editor, pending_start = 0, pending_stop = 1,
      calls = [Call_startExtensionHostProfile, Call_stop 7]\<rparr>"

definition example_idle_after_failure :: world where
  "example_idle_after_failure =
     \<lparr>action = \<lparr>profileSession = None, state = State_None,
                 css_class = START_CSS_CLASS, label = LABEL_START\<rparr>,
      parentEditor = example_editor, pending_start = 0, pending_stop = 0,
      calls = [Call_startExtensionHostProfile, Call_stop 7, Call_onUnexpectedError ''failed'']\<rparr>"

definition example_idle_after_start_failure :: world where
  "example_idle_after_start_failure =
     \<lparr>action = \<lparr>profileSession = None, state = State_None,
                 css_class = START_CSS_CLASS, label = LABEL_START\<rparr>,
      parentEditor = example_editor, pending_start = 0, pending_stop = 0,
      calls = [Call_startExtensionHostProfile, Call_onUnexpectedError ''failed'']\<rparr>"

section \<open>Evaluation rules\<close>

lemmas resolve_eval =
  resolveExtensions_def build_result_def make_element_def marketplaceMap_def group_segments_def
  segment_step_def id_at_def extensionProfileInfo_def extensionTotalTime_def compareFn_def
  Let_def upt_rec

lemmas profile_eval =
  profile_of_def group_segments_def segment_step_def id_at_def extensionProfileInfo_def
  extensionTotalTime_def segment_pairs_def Let_def upt_rec

lemmas action_defs = setState_def update_def new_action_def

lemmas callback_defs = run_def start_fulfilled_def start_rejected_def stop_fulfilled_def
  stop_rejected_def

lemmas world_eval = new_world_def action_defs callback_defs Let_def

section \<open>The filter and the sort\<close>

lemma filter_activated_ok:
  "\<forall>x\<in>set xs. status x \<noteq> None \<Longrightarrow> filter_activated xs = Inr (filter activated xs)"
  by (induction xs) (auto simp: activated_def)

lemma filter_activated_raises:
  "x \<in> set xs \<Longrightarrow> status x = None \<Longrightarrow> filter_activated xs = Inl TypeError"
proof (induction xs)
  case Nil
  then show ?case by simp
next
  case (Cons y ys)
  show ?case
  proof (cases "status y")
    case None
    then show ?thesis by simp
  next
    case (Some s)
    with Cons.prems have "x \<in> set ys" by auto
    with Cons have "filter_activated ys = Inl TypeError" by simp
    with Some show ?thesis by simp
  qed
qed

lemma filter_activated_Inr:
  "filter_activated xs = Inr ys \<longleftrightarrow> (\<forall>x\<in>set xs. status x \<noteq> None) \<and> ys = filter activated xs"
proof (cases "\<forall>x\<in>set xs. status x \<noteq> None")
  case True
  then show ?thesis using filter_activated_ok [of xs] by auto
next
  case False
  then obtain x where "x \<in> set xs" "status x = None" by auto
  then have "filter_activated xs = Inl TypeError" by (rule filter_activated_raises)
  with False show ?thesis by simp
qed

lemma compareFn_key:
  assumes "profileInfo a \<noteq> None" "profileInfo b \<noteq> None"
  shows "\<exists>c. compareFn a b = Inr c \<and> (c \<le> 0 \<longleftrightarrow> order_key a \<le> order_key b)"
  using assms by (auto simp: compareFn_def order_key_def less_eq_prod_def)

lemma insert_sorted_key:
  assumes "profileInfo x \<noteq> None" "\<forall>y\<in>set ys. profileInfo y \<noteq> None"
  shows "insert_sorted compareFn x ys = Inr (insort_key order_key x ys)"
  using assms
proof (induction ys)
  case Nil
  then show ?case by simp
next
  case (Cons y ys)
  from Cons.prems obtain c where c: "compareFn x y = Inr c" "c \<le> 0 \<longleftrightarrow> order_key x \<le> order_key y"
    using compareFn_key [of x y] by auto
  with Cons show ?case by simp
qed

lemma array_sort_key:
  assumes "\<forall>y\<in>set xs. profileInfo y \<noteq> None"
  shows "array_sort compareFn xs = Inr (sort_key order_key xs)"
  using assms by (induction xs) (simp_all add: insert_sorted_key)

lemma key_less_ordered:
  assumes "profileInfo a \<noteq> None" "profileInfo b \<noteq> None" "order_key a < order_key b"
  shows "ordered_before a b"
  using assms by (auto simp: order_key_def ordered_before_def less_prod_def)

lemma accepts_key:
  assumes "accepts a b"
  shows "order_key a \<le> order_key b \<and> profileInfo a \<noteq> None \<and> profileInfo b \<noteq> None"
  using assms
  by (auto simp: accepts_def compareFn_def order_key_def less_eq_prod_def
      split: option.splits if_splits)

lemma distinct_order_key:
  "distinct (map originalIndex xs) \<Longrightarrow> distinct (map order_key xs)"
proof -
  assume d: "distinct (map originalIndex xs)"
  have "map originalIndex xs = map snd (map order_key xs)"
    by (simp add: order_key_def comp_def split: option.splits)
  with d have "distinct (map snd (map order_key xs))" by simp
  then show ?thesis using distinct_map [of snd "map order_key xs"] by blast
qed

section \<open>The list before the filter\<close>

lemma length_build_result: "length (build_result ed) = length (extensionsDescriptions ed)"
  by (simp add: build_result_def)

lemma originalIndex_build_result:
  "map originalIndex (build_result ed) = [0..<length (extensionsDescriptions ed)]"
  by (rule nth_equalityI) (simp_all add: build_result_def make_element_def Let_def)

lemma originalIndex_nth:
  "i < length (extensionsDescriptions ed) \<Longrightarrow> originalIndex (build_result ed ! i) = i"
  by (simp add: build_result_def make_element_def Let_def)

lemma build_result_as_map:
  "build_result ed = map (\<lambda>i. build_result ed ! i) [0..<length (extensionsDescriptions ed)]"
  by (rule nth_equalityI) (simp_all add: length_build_result)

lemma build_result_member:
  assumes "x \<in> set (build_result ed)"
  shows "originalIndex x < length (extensionsDescriptions ed)"
    and "description x = extensionsDescriptions ed ! originalIndex x"
    and "status x = extensionService_getExtensionsStatus ed (description_id (description x))"
    and "marketplaceInfo x =
           marketplaceMap (extensionsWorkbenchService_local ed) (description_id (description x))"
    and "profileInfo x =
           (case editor_profileInfo ed of
              None \<Rightarrow> None
            | Some p \<Rightarrow> Some (profile_of p (description_id (description x))))"
  using assms by (auto simp: build_result_def make_element_def profile_of_def Let_def split: option.splits)

lemma activated_build_result:
  "i < length (extensionsDescriptions ed) \<Longrightarrow> activated (build_result ed ! i) = activated_at ed i"
  by (simp add: build_result_def make_element_def activated_def activated_at_def Let_def)

lemma distinct_kept: "distinct (map originalIndex (filter activated (build_result ed)))"
proof -
  have "distinct (map originalIndex (build_result ed))"
    by (simp add: originalIndex_build_result)
  then show ?thesis by (rule distinct_map_filter)
qed

lemma originalIndex_kept:
  "map originalIndex (filter activated (build_result ed)) =
     filter (activated_at ed) [0..<length (extensionsDescriptions ed)]"
proof -
  let ?n = "length (extensionsDescriptions ed)"
  have "map originalIndex (filter activated (build_result ed)) =
        map originalIndex (filter activated (map (\<lambda>i. build_result ed ! i) [0..<?n]))"
    using build_result_as_map [of ed] by simp
  also have "\<dots> = map (\<lambda>i. originalIndex (build_result ed ! i))
                    (filter (\<lambda>i. activated (build_result ed ! i)) [0..<?n])"
    by (simp add: filter_map comp_def)
  also have "\<dots> = map (\<lambda>i. i) (filter (activated_at ed) [0..<?n])"
    by (intro map_cong filter_cong) (auto simp: originalIndex_nth activated_build_result)
  finally show ?thesis by simp
qed

section \<open>What \<open>_resolveExtensions\<close> returns\<close>

lemma resolve_without_profile:
  assumes "editor_profileInfo ed = None"
  shows "resolveExtensions ed = Inr r \<longleftrightarrow>
           (\<forall>x\<in>set (build_result ed). status x \<noteq> None) \<and> r = filter activated (build_result ed)"
proof (cases "filter_activated (build_result ed)")
  case (Inl e)
  then show ?thesis using filter_activated_ok [of "build_result ed"]
    by (auto simp: resolveExtensions_def)
next
  case (Inr kept)
  then have "resolveExtensions ed = Inr kept" using assms by (simp add: resolveExtensions_def)
  moreover from Inr have "(\<forall>x\<in>set (build_result ed). status x \<noteq> None) \<and>
      kept = filter activated (build_result ed)"
    by (simp add: filter_activated_Inr)
  ultimately show ?thesis by auto
qed

lemma resolve_with_profile:
  assumes "editor_profileInfo ed = Some p"
  shows "resolveExtensions ed = Inr r \<longleftrightarrow>
           (\<forall>x\<in>set (build_result ed). status x \<noteq> None) \<and>
           r = sort_key order_key (filter activated (build_result ed))"
proof -
  have "\<forall>y\<in>set (filter activated (build_result ed)). profileInfo y \<noteq> None"
    using assms by (auto simp: build_result_member(5))
  then have "array_sort compareFn (filter activated (build_result ed)) =
               Inr (sort_key order_key (filter activated (build_result ed)))"
    by (rule array_sort_key)
  then have sorted: "array_sort compareFn (filter activated (build_result ed)) =
               Inr (sort_key order_key (filter activated (build_result ed)))" .
  show ?thesis
  proof (cases "filter_activated (build_result ed)")
    case (Inl e)
    then show ?thesis using filter_activated_ok [of "build_result ed"]
      by (auto simp: resolveExtensions_def)
  next
    case (Inr kept)
    then have "resolveExtensions ed = array_sort compareFn kept"
      using assms by (simp add: resolveExtensions_def)
    moreover from Inr have "(\<forall>x\<in>set (build_result ed). status x \<noteq> None) \<and>
        kept = filter activated (build_result ed)"
      by (simp add: filter_activated_Inr)
    ultimately show ?thesis using sorted by auto
  qed
qed

lemma resolve_members:
  assumes "resolveExtensions ed = Inr r"
  shows "(\<forall>x\<in>set (build_result ed). status x \<noteq> None) \<and>
         mset r = mset (filter activated (build_result ed))"
proof (cases "editor_profileInfo ed")
  case None
  then show ?thesis using assms by (simp add: resolve_without_profile)
next
  case (Some p)
  then show ?thesis using assms by (simp add: resolve_with_profile)
qed

lemma originalIndex_resolved:
  assumes "resolveExtensions ed = Inr r"
  shows "originalIndex ` set r = {i. i < length (extensionsDescriptions ed) \<and> activated_at ed i}"
proof -
  from resolve_members [OF assms] have "mset r = mset (filter activated (build_result ed))" by simp
  then have "set r = set (filter activated (build_result ed))" by (rule mset_eq_setD)
  then have "originalIndex ` set r = set (map originalIndex (filter activated (build_result ed)))"
    by simp
  then show ?thesis by (auto simp: originalIndex_kept)
qed

lemma resolved_profileInfo:
  assumes "editor_profileInfo ed = Some p" "resolveExtensions ed = Inr r" "x \<in> set r"
  shows "profileInfo x = Some (profile_of p (description_id (description x)))"
proof -
  from resolve_members [OF assms(2)] have "mset r = mset (filter activated (build_result ed))"
    by simp
  then have "set r = set (filter activated (build_result ed))" by (rule mset_eq_setD)
  with assms(3) have "x \<in> set (build_result ed)" by simp
  then show ?thesis using assms(1) by (simp add: build_result_member(5))
qed

lemma example_editor_resolves: "resolveExtensions example_editor = Inr example_result"
  by (simp add: resolve_eval example_editor_def example_result_def example_description_def
      status_activated_def status_never_activated_def)

lemma sort_key_facts:
  assumes "distinct (map originalIndex kept)" "\<forall>x\<in>set kept. profileInfo x \<noteq> None"
    and r: "r = sort_key order_key kept"
  shows "sorted (map order_key r)" "distinct (map order_key r)" "\<forall>x\<in>set r. profileInfo x \<noteq> None"
proof -
  show "sorted (map order_key r)" by (simp add: r)
  have "mset (map order_key r) = mset (map order_key kept)" by (simp add: r)
  moreover have "distinct (map order_key kept)" using assms(1) by (rule distinct_order_key)
  ultimately show "distinct (map order_key r)" by (metis mset_eq_imp_distinct_iff)
  show "\<forall>x\<in>set r. profileInfo x \<noteq> None" using assms(2) by (simp add: r)
qed

lemma sorted_keys_ordered:
  assumes "sorted (map order_key r)" "distinct (map order_key r)" "\<forall>x\<in>set r. profileInfo x \<noteq> None"
  shows "sorted_wrt ordered_before r"
proof -
  from assms(1,2) have "sorted_wrt (<) (map order_key r)" by (simp add: strict_sorted_iff)
  then have "sorted_wrt (\<lambda>a b. order_key a < order_key b) r" by (simp add: sorted_wrt_map)
  then show ?thesis
    by (rule sorted_wrt_mono_rel [rotated]) (use assms(3) in \<open>auto intro: key_less_ordered\<close>)
qed

lemma accepted_arrangement_unique:
  assumes "sorted (map order_key r)" "distinct (map order_key r)"
    and "mset ys = mset r" "sorted_wrt accepts ys"
  shows "ys = r"
proof -
  have "sorted_wrt (\<lambda>a b. order_key a \<le> order_key b) ys"
    by (rule sorted_wrt_mono_rel [OF _ assms(4)]) (simp add: accepts_key)
  then have s: "sorted (map order_key ys)" by (simp add: sorted_wrt_map)
  have m: "mset (map order_key ys) = mset (map order_key r)" using assms(3) by simp
  then have d: "distinct (map order_key ys)" using assms(2) by (metis mset_eq_imp_distinct_iff)
  have "set (map order_key ys) = set (map order_key r)" using m by (rule mset_eq_setD)
  with s d assms(1,2) have eq: "map order_key ys = map order_key r"
    by (rule sorted_distinct_set_unique)
  have "set ys = set r" using assms(3) by (rule mset_eq_setD)
  moreover have "inj_on order_key (set r)" using assms(2) by (simp add: distinct_map)
  ultimately have "inj_on order_key (set ys \<union> set r)" by simp
  with eq show ?thesis by (simp add: inj_on_map_eq_map)
qed

text \<open>
  Claim C1. When a profile is set and \<open>_resolveExtensions\<close> returns \<open>r\<close>: \<open>r\<close> holds
  the records that pass the filter; it is ordered descending by
  \<open>profileInfo.totalTime\<close>, and two records with equal \<open>totalTime\<close> stand in ascending
  order of \<open>originalIndex\<close>; sorting \<open>r\<close> again returns \<open>r\<close>; and every arrangement of
  the same records in which the comparator accepts each earlier record before each
  later one is \<open>r\<close> itself, so the result does not depend on how the host sorts.
\<close>

theorem resolve_sorted:
  assumes "editor_profileInfo ed = Some p" and "resolveExtensions ed = Inr r"
  shows "filter_activated (build_result ed) = Inr (filter activated (build_result ed)) \<and>
         mset r = mset (filter activated (build_result ed)) \<and>
         sorted_wrt ordered_before r \<and>
         array_sort compareFn r = Inr r \<and>
         (\<forall>ys. mset ys = mset r \<and> sorted_wrt accepts ys \<longrightarrow> ys = r)"
proof -
  let ?kept = "filter activated (build_result ed)"
  from assms have st: "\<forall>x\<in>set (build_result ed). status x \<noteq> None"
    and r: "r = sort_key order_key ?kept"
    by (simp_all add: resolve_with_profile)
  have prof: "\<forall>x\<in>set ?kept. profileInfo x \<noteq> None"
    using assms(1) by (auto simp: build_result_member(5))
  note facts = sort_key_facts [OF distinct_kept prof r]
  have "filter_activated (build_result ed) = Inr ?kept" using st by (rule filter_activated_ok)
  moreover have "mset r = mset ?kept" by (simp add: r)
  moreover have "sorted_wrt ordered_before r" using facts by (rule sorted_keys_ordered)
  moreover have "array_sort compareFn r = Inr r"
    using array_sort_key [OF facts(3)] facts(1) by (simp add: sort_key_id_if_sorted)
  moreover have "\<forall>ys. mset ys = mset r \<and> sorted_wrt accepts ys \<longrightarrow> ys = r"
    using accepted_arrangement_unique [OF facts(1,2)] by blast
  ultimately show ?thesis by blast
qed

theorem resolve_sorted_witness:
  "editor_profileInfo example_profiled_editor = Some example_trace \<and>
   resolveExtensions example_profiled_editor = Inr example_profiled_result \<and>
   sorted_wrt ordered_before example_profiled_result \<and>
   array_sort compareFn example_profiled_result = Inr example_profiled_result"
proof -
  have p: "editor_profileInfo example_profiled_editor = Some example_trace"
    by (simp add: example_profiled_editor_def)
  have r: "resolveExtensions example_profiled_editor = Inr example_profiled_result"
    by (simp add: resolve_eval example_profiled_editor_def example_profiled_result_def
      example_trace_def example_description_def status_activated_def)
  show ?thesis using p r resolve_sorted [OF p r] by simp
qed

text \<open>In the scenario of claim C2 (descriptions [A, B, C], activation times for A and C
  only, no profile) the record of C carries \<open>originalIndex\<close> 2, not 1.\<close>

theorem originalIndex_counterexample:
  "resolveExtensions example_editor = Inr example_result \<and>
   map (description_id \<circ> description) example_result = [''A'', ''C''] \<and>
   map originalIndex example_result = [0, 2] \<and>
   map originalIndex example_result \<noteq> [0, 1]"
  using example_editor_resolves by (simp add: example_result_def example_description_def)

text \<open>
  Claim C2, amended. Each record that \<open>_resolveExtensions\<close> returns carries as
  \<open>originalIndex\<close> the position of its description in \<open>_extensionsDescriptions\<close>, the
  list before the filter: the indices are distinct, they are exactly the positions
  whose status has activation times, and without a profile they come in ascending
  order. In the scenario the result is A with index 0 and C with index 2.
\<close>

theorem originalIndex_position:
  assumes "resolveExtensions ed = Inr r"
  shows "(\<forall>x\<in>set r. originalIndex x < length (extensionsDescriptions ed) \<and>
                    description x = extensionsDescriptions ed ! originalIndex x) \<and>
         distinct (map originalIndex r) \<and>
         originalIndex ` set r = {i. i < length (extensionsDescriptions ed) \<and> activated_at ed i} \<and>
         (editor_profileInfo ed = None \<longrightarrow>
            map originalIndex r = filter (activated_at ed) [0..<length (extensionsDescriptions ed)])"
proof -
  let ?kept = "filter activated (build_result ed)"
  from resolve_members [OF assms] have m: "mset r = mset ?kept" by simp
  then have s: "set r = set ?kept" by (rule mset_eq_setD)
  have 1: "\<forall>x\<in>set r. originalIndex x < length (extensionsDescriptions ed) \<and>
                    description x = extensionsDescriptions ed ! originalIndex x"
    using s build_result_member(1,2) by auto
  have "mset (map originalIndex r) = mset (map originalIndex ?kept)" using m by simp
  then have 2: "distinct (map originalIndex r)"
    using distinct_kept [of ed] by (metis mset_eq_imp_distinct_iff)
  have 3: "originalIndex ` set r = {i. i < length (extensionsDescriptions ed) \<and> activated_at ed i}"
    using assms by (rule originalIndex_resolved)
  have 4: "map originalIndex r = filter (activated_at ed) [0..<length (extensionsDescriptions ed)]"
    if "editor_profileInfo ed = None"
    using that assms by (simp add: resolve_without_profile originalIndex_kept)
  from 1 2 3 4 show ?thesis by blast
qed

theorem originalIndex_position_witness:
  "resolveExtensions example_editor = Inr example_result \<and>
   editor_profileInfo example_editor = None \<and>
   map originalIndex example_result = [0, 2] \<and>
   filter (activated_at example_editor) [0..<length (extensionsDescriptions example_editor)] = [0, 2] \<and>
   distinct (map originalIndex example_result)"
proof -
  have a: "resolveExtensions example_editor = Inr example_result"
    by (rule example_editor_resolves)
  have b: "editor_profileInfo example_editor = None" by (simp add: example_editor_def)
  have c: "map originalIndex example_result = [0, 2]" by (simp add: example_result_def)
  from originalIndex_position [OF a] b c show ?thesis using a by simp
qed

section \<open>The segments of a profile\<close>

lemma fold_nth:
  "fold (\<lambda>i. g (xs ! i)) [0..<length xs] s = fold g xs s"
proof (induction xs arbitrary: s rule: rev_induct)
  case Nil
  then show ?case by simp
next
  case (snoc x xs)
  have "fold (\<lambda>i. g ((xs @ [x]) ! i)) [0..<length xs] s = fold (\<lambda>i. g (xs ! i)) [0..<length xs] s"
    by (rule fold_cong) (simp_all add: nth_append)
  then show ?case using snoc by simp
qed

lemma length_trace_pairs: "length (trace_pairs p) = length (deltas p)"
  by (simp add: trace_pairs_def)

lemma segment_step_pair:
  assumes "i < length (deltas p)"
  shows "segment_step p i = pair_step (trace_pairs p ! i)"
proof
  fix st
  show "segment_step p i st = pair_step (trace_pairs p ! i) st"
    using assms by (cases st) (simp add: segment_step_def pair_step_def trace_pairs_def Let_def)
qed

lemma group_segments_fold:
  "group_segments (Some p) = fst (fold pair_step (trace_pairs p) (Map.empty, startTime p))"
proof -
  have "fold (segment_step p) [0..<length (deltas p)] s =
        fold (\<lambda>i. pair_step (trace_pairs p ! i)) [0..<length (trace_pairs p)] s" for s
    by (rule fold_cong) (simp_all add: segment_step_pair length_trace_pairs)
  then show ?thesis by (simp add: group_segments_def fold_nth)
qed

lemma stored_fold:
  "stored (fst (fold pair_step ps (segs, cur))) l =
     stored segs l @ flatten_intervals (spec_intervals cur ps l)"
proof (induction ps arbitrary: segs cur)
  case Nil
  then show ?case by simp
next
  case (Cons pr ps)
  obtain l' d where pr: "pr = (l', d)" by (cases pr)
  have "pair_step pr (segs, cur) = (segs(l' \<mapsto> stored segs l' @ [cur, cur + d]), cur + d)"
    by (simp add: pair_step_def stored_def pr)
  then show ?case using Cons.IH by (simp add: pr stored_def)
qed

lemma segments_profile_of:
  "segments (profile_of p l) = flatten_intervals (spec_intervals (startTime p) (trace_pairs p) l)"
  using stored_fold [of "trace_pairs p" Map.empty "startTime p" l]
  by (simp add: profile_of_def extensionProfileInfo_def group_segments_fold stored_def Let_def)

lemma segment_pairs_flatten: "segment_pairs (flatten_intervals ivs) = ivs"
proof (induction ivs)
  case Nil
  then show ?case by (simp add: segment_pairs_def)
next
  case (Cons iv ivs)
  obtain s e where iv: "iv = (s, e)" by (cases iv)
  have len: "length (flatten_intervals ((s, e) # ivs)) div 2 = Suc (length (flatten_intervals ivs) div 2)"
    by simp
  have "[0..<Suc n] = 0 # map Suc [0..<n]" for n
    by (simp add: upt_conv_Cons map_Suc_upt del: upt_Suc)
  then show ?case using Cons
    unfolding segment_pairs_def iv len by (simp add: comp_def del: upt_Suc)
qed

lemma length_flatten: "length (flatten_intervals ivs) = 2 * length ivs"
  by (induction ivs) auto





lemma group_segments_even: "group_segments pi l = Some s \<Longrightarrow> even (length s)"
proof (cases pi)
  case None
  assume "group_segments pi l = Some s"
  with None show ?thesis by (simp add: group_segments_def)
next
  case (Some p)
  assume a: "group_segments pi l = Some s"
  have "s = segments (profile_of p l)"
    using a Some by (simp add: profile_of_def extensionProfileInfo_def)
  then show ?thesis by (simp add: segments_profile_of length_flatten)
qed


lemma snd_trace_pairs: "map snd (trace_pairs p) = deltas p"
  by (rule nth_equalityI) (simp_all add: trace_pairs_def)



section \<open>Missing status entries\<close>

text \<open>Against claim C4 as stated: a description without an entry in the status map
  makes \<open>_resolveExtensions\<close> raise.\<close>

theorem missing_status_counterexample:
  "extensionService_getExtensionsStatus missing_status_editor ''B'' = None \<and>
   resolveExtensions missing_status_editor = Inl TypeError"
  by (simp add: resolve_eval missing_status_editor_def example_description_def status_activated_def)

text \<open>
  Claim C4, amended. When every description has an entry in the status map,
  \<open>_resolveExtensions\<close> returns without raising; the result is no longer than the
  list of descriptions; every record of the result has a status entry, which has
  activation times; and a description whose status has no activation times is not in
  the result.
\<close>

theorem resolve_excludes_unactivated:
  assumes "\<forall>d\<in>set (extensionsDescriptions ed).
             extensionService_getExtensionsStatus ed (description_id d) \<noteq> None"
  shows "\<exists>r. resolveExtensions ed = Inr r \<and>
             length r \<le> length (extensionsDescriptions ed) \<and>
             (\<forall>x\<in>set r. \<exists>s a.
                extensionService_getExtensionsStatus ed (description_id (description x)) = Some s \<and>
                status x = Some s \<and> activationTimes s = Some a) \<and>
             (\<forall>i<length (extensionsDescriptions ed).
                \<not> activated_at ed i \<longrightarrow> i \<notin> originalIndex ` set r)"
proof -
  let ?kept = "filter activated (build_result ed)"
  have st: "\<forall>x\<in>set (build_result ed). status x \<noteq> None"
  proof
    fix x assume x: "x \<in> set (build_result ed)"
    then have "description x \<in> set (extensionsDescriptions ed)"
      using build_result_member(1,2) [OF x] by simp
    with assms show "status x \<noteq> None" using build_result_member(3) [OF x] by simp
  qed
  obtain r where r: "resolveExtensions ed = Inr r"
  proof (cases "editor_profileInfo ed")
    case None
    then show ?thesis using st that by (simp add: resolve_without_profile)
  next
    case (Some p)
    then show ?thesis using st that by (simp add: resolve_with_profile)
  qed
  from resolve_members [OF r] have m: "mset r = mset ?kept" by simp
  then have s: "set r = set ?kept" by (rule mset_eq_setD)
  have "length r = length ?kept" using m by (rule mset_eq_length)
  also have "\<dots> \<le> length (build_result ed)" by (rule length_filter_le)
  finally have 1: "length r \<le> length (extensionsDescriptions ed)"
    by (simp add: length_build_result)
  have 2: "\<forall>x\<in>set r. \<exists>s a.
      extensionService_getExtensionsStatus ed (description_id (description x)) = Some s \<and>
      status x = Some s \<and> activationTimes s = Some a"
  proof
    fix x assume "x \<in> set r"
    with s have x: "x \<in> set (build_result ed)" and a: "activated x" by auto
    from a obtain s t where "status x = Some s" "activationTimes s = Some t"
      by (auto simp: activated_def split: option.splits)
    with build_result_member(3) [OF x] show "\<exists>s a.
      extensionService_getExtensionsStatus ed (description_id (description x)) = Some s \<and>
      status x = Some s \<and> activationTimes s = Some a" by metis
  qed
  have 3: "\<forall>i<length (extensionsDescriptions ed). \<not> activated_at ed i \<longrightarrow> i \<notin> originalIndex ` set r"
    using originalIndex_resolved [OF r] by auto
  from r 1 2 3 show ?thesis by blast
qed

theorem resolve_excludes_unactivated_witness:
  "extensionService_getExtensionsStatus example_editor ''A'' \<noteq> None \<and>
   extensionService_getExtensionsStatus example_editor ''B'' \<noteq> None \<and>
   extensionService_getExtensionsStatus example_editor ''C'' \<noteq> None \<and>
   resolveExtensions example_editor = Inr example_result \<and>
   length example_result \<le> length (extensionsDescriptions example_editor) \<and>
   \<not> activated_at example_editor 1 \<and>
   1 \<notin> originalIndex ` set example_result"
proof -
  have h: "\<forall>d\<in>set (extensionsDescriptions example_editor).
      extensionService_getExtensionsStatus example_editor (description_id d) \<noteq> None"
    by (simp add: example_editor_def example_description_def)
  have n: "\<not> activated_at example_editor 1"
    by (simp add: activated_at_def example_editor_def example_description_def
        status_never_activated_def)
  from resolve_excludes_unactivated [OF h] obtain r where
    r: "resolveExtensions example_editor = Inr r"
    and l: "length r \<le> length (extensionsDescriptions example_editor)"
    and e: "\<forall>i<length (extensionsDescriptions example_editor).
        \<not> activated_at example_editor i \<longrightarrow> i \<notin> originalIndex ` set r"
    by blast
  from r have eq: "r = example_result" by (simp add: example_editor_resolves)
  have "(1::nat) < length (extensionsDescriptions example_editor)"
    by (simp add: example_editor_def)
  with e n have "1 \<notin> originalIndex ` set r" by blast
  with r l n eq show ?thesis by (simp add: example_editor_def)
qed

section \<open>The sum of the interval lengths\<close>

lemma sum_intervals_label:
  "sum_list (map interval_length (spec_intervals cur ps l)) =
     sum_list (map snd (filter (\<lambda>pr. fst pr = l) ps))"
  by (induction ps arbitrary: cur) (auto simp: interval_length_def)

lemma sum_over_labels:
  assumes "finite L" "fst ` set ps \<subseteq> L"
  shows "(\<Sum>l\<in>L. sum_list (map snd (filter (\<lambda>pr. fst pr = l) ps))) = sum_list (map snd ps)"
  using assms(2)
proof (induction ps)
  case Nil
  then show ?case by simp
next
  case (Cons pr ps)
  then have mem: "fst pr \<in> L" and sub: "fst ` set ps \<subseteq> L" by auto
  have "(\<Sum>l\<in>L. sum_list (map snd (filter (\<lambda>q. fst q = l) (pr # ps)))) =
        (\<Sum>l\<in>L. (if fst pr = l then snd pr else 0) + sum_list (map snd (filter (\<lambda>q. fst q = l) ps)))"
    by (rule sum.cong) auto
  also have "\<dots> = (\<Sum>l\<in>L. if fst pr = l then snd pr else 0) +
                  (\<Sum>l\<in>L. sum_list (map snd (filter (\<lambda>q. fst q = l) ps)))"
    by (rule sum.distrib)
  also have "(\<Sum>l\<in>L. if fst pr = l then snd pr else 0) = snd pr"
    using assms(1) mem by simp
  finally show ?case using Cons.IH [OF sub] by simp
qed

text \<open>In exact integer arithmetic the interval lengths of all labels sum to
  \<open>endTime - startTime\<close> whenever the deltas do.\<close>

lemma exact_interval_lengths_sum:
  assumes "sum_list (deltas p) = endTime p - startTime p"
    and "finite L" and "fst ` set (trace_pairs p) \<subseteq> L"
  shows "(\<Sum>l\<in>L. sum_list (map interval_length (segment_pairs (segments (profile_of p l))))) =
           endTime p - startTime p"
proof -
  have "(\<Sum>l\<in>L. sum_list (map interval_length (segment_pairs (segments (profile_of p l))))) =
        (\<Sum>l\<in>L. sum_list (map snd (filter (\<lambda>pr. fst pr = l) (trace_pairs p))))"
    by (simp add: segments_profile_of segment_pairs_flatten sum_intervals_label)
  also have "\<dots> = sum_list (map snd (trace_pairs p))"
    using assms(2,3) by (rule sum_over_labels)
  finally show ?thesis using assms(1) by (simp add: snd_trace_pairs)
qed

subsection \<open>With the rounding of doubles\<close>

lemma double_spacing_small: "n < 2 ^ 53 \<Longrightarrow> double_spacing n = 1"
  by (simp add: double_spacing.simps)

lemma double_spacing_53: "double_spacing 9007199254740992 = 2"
  by (simp add: double_spacing.simps [of 9007199254740992] double_spacing_small)

lemma round_double_exact:
  assumes "\<bar>x\<bar> \<le> 2 ^ 53"
  shows "round_double x = x"
proof (cases "\<bar>x\<bar> < 2 ^ 53")
  case True
  then have "double_spacing \<bar>x\<bar> = 1" by (rule double_spacing_small)
  then show ?thesis by (simp add: round_double_def)
next
  case False
  with assms have a: "\<bar>x\<bar> = 2 ^ 53" by simp
  then have q: "double_spacing \<bar>x\<bar> = 2" by (simp add: double_spacing_53)
  from a have "x = 2 ^ 53 \<or> x = - (2 ^ 53)" by linarith
  then have m: "x mod 2 = 0" by auto
  then have "x div 2 * 2 = x" by presburger
  with m show ?thesis by (simp add: round_double_def q Let_def)
qed

lemma segment_step_double_pair:
  assumes "i < length (deltas p)"
  shows "segment_step_double p i = pair_step_double (trace_pairs p ! i)"
proof
  fix st
  show "segment_step_double p i st = pair_step_double (trace_pairs p ! i) st"
    using assms
    by (cases st) (simp add: segment_step_double_def pair_step_double_def trace_pairs_def Let_def)
qed

lemma group_segments_double_fold:
  "group_segments_double p = fst (fold pair_step_double (trace_pairs p) (Map.empty, startTime p))"
proof -
  have "fold (segment_step_double p) [0..<length (deltas p)] s =
        fold (\<lambda>i. pair_step_double (trace_pairs p ! i)) [0..<length (trace_pairs p)] s" for s
    by (rule fold_cong) (simp_all add: segment_step_double_pair length_trace_pairs)
  then show ?thesis by (simp add: group_segments_double_def fold_nth)
qed

lemma cursors_head: "list_all P (cursors c ds) \<Longrightarrow> P c"
  by (cases ds) simp_all

lemma fold_double_exact:
  assumes "list_all (\<lambda>c. \<bar>c\<bar> \<le> 2 ^ 53) (cursors cur (map snd ps))"
  shows "fold pair_step_double ps (segs, cur) = fold pair_step ps (segs, cur)"
  using assms
proof (induction ps arbitrary: segs cur)
  case Nil
  then show ?case by simp
next
  case (Cons pr ps)
  from Cons.prems have rest: "list_all (\<lambda>c. \<bar>c\<bar> \<le> 2 ^ 53) (cursors (cur + snd pr) (map snd ps))"
    by simp
  then have "\<bar>cur + snd pr\<bar> \<le> 2 ^ 53" by (rule cursors_head)
  then have "round_double (cur + snd pr) = cur + snd pr" by (rule round_double_exact)
  then have "pair_step_double pr (segs, cur) = pair_step pr (segs, cur)"
    by (simp add: pair_step_double_def pair_step_def)
  moreover obtain segs' where "pair_step pr (segs, cur) = (segs', cur + snd pr)"
    by (simp add: pair_step_def)
  ultimately show ?case using Cons.IH [OF rest] by simp
qed

text \<open>On an exact trace the loop on doubles stores what the loop on integers stores.\<close>

lemma segments_double_exact:
  assumes "exact_trace p"
  shows "segments_double p l = segments (profile_of p l)"
proof -
  have "list_all (\<lambda>c. \<bar>c\<bar> \<le> 2 ^ 53) (cursors (startTime p) (map snd (trace_pairs p)))"
    using assms by (simp add: exact_trace_def snd_trace_pairs)
  then have "group_segments_double p = group_segments (Some p)"
    by (simp add: group_segments_double_fold group_segments_fold fold_double_exact)
  then show ?thesis
    by (simp add: segments_double_def profile_of_def extensionProfileInfo_def Let_def)
qed

text \<open>Against claim C5 as stated: from the start time \<open>2 ^ 53\<close> each addition of the delta
  1 rounds back to \<open>2 ^ 53\<close>, so both intervals of A are empty and the lengths sum to 0,
  while the deltas sum to \<open>endTime - startTime = 2\<close>.\<close>

theorem interval_lengths_rounding_counterexample:
  "round_double (startTime rounding_trace) = startTime rounding_trace \<and>
   round_double (endTime rounding_trace) = endTime rounding_trace \<and>
   map round_double (deltas rounding_trace) = deltas rounding_trace \<and>
   sum_list (deltas rounding_trace) = endTime rounding_trace - startTime rounding_trace \<and>
   fst ` set (trace_pairs rounding_trace) = {''A''} \<and>
   segments_double rounding_trace ''A'' =
     [9007199254740992, 9007199254740992, 9007199254740992, 9007199254740992] \<and>
   sum (label_lengths_double rounding_trace) {''A''} = 0 \<and>
   endTime rounding_trace - startTime rounding_trace = 2"
  by code_simp

text \<open>
  Claim C5, amended. For every exact trace (the start time and every value the
  cursor takes are at most \<open>2 ^ 53\<close> in magnitude) whose deltas sum to
  \<open>endTime - startTime\<close>, and every finite set of labels that contains the labels of the
  trace, the interval lengths of all segments of all these labels, as the loop on
  doubles produces them, sum to \<open>endTime - startTime\<close>.
\<close>

theorem interval_lengths_sum_exact:
  assumes "exact_trace p"
    and "sum_list (deltas p) = endTime p - startTime p"
    and "finite L" and "fst ` set (trace_pairs p) \<subseteq> L"
  shows "sum (label_lengths_double p) L = endTime p - startTime p"
proof -
  have "sum (label_lengths_double p) L =
        (\<Sum>l\<in>L. sum_list (map interval_length (segment_pairs (segments (profile_of p l)))))"
    using assms(1) by (simp add: label_lengths_double_def segments_double_exact)
  also have "\<dots> = endTime p - startTime p"
    using assms(2-4) by (rule exact_interval_lengths_sum)
  finally show ?thesis .
qed

theorem interval_lengths_sum_exact_witness:
  "exact_trace example_trace \<and>
   sum_list (deltas example_trace) = endTime example_trace - startTime example_trace \<and>
   finite {''A'', ''B'', ''C''} \<and>
   fst ` set (trace_pairs example_trace) \<subseteq> {''A'', ''B'', ''C''} \<and>
   sum (label_lengths_double example_trace) {''A'', ''B'', ''C''} = 1000"
proof -
  have e: "exact_trace example_trace" by (simp add: exact_trace_def example_trace_def)
  have a: "sum_list (deltas example_trace) = endTime example_trace - startTime example_trace"
    by (simp add: example_trace_def)
  have b: "finite {''A'', ''B'', ''C''}" by simp
  have c: "fst ` set (trace_pairs example_trace) \<subseteq> {''A'', ''B'', ''C''}"
    by (simp add: trace_pairs_def example_trace_def id_at_def upt_rec)
  have d: "endTime example_trace - startTime example_trace = 1000"
    by (simp add: example_trace_def)
  show ?thesis using e a b c interval_lengths_sum_exact [OF e a b c] unfolding d by simp
qed

section \<open>Resolving without a profile\<close>

lemma erase_build_result:
  "map erase_marketplaceInfo (build_result (ed\<lparr>extensionsWorkbenchService_local := l\<rparr>)) =
   map erase_marketplaceInfo (build_result ed)"
  by (simp add: build_result_def make_element_def erase_marketplaceInfo_def Let_def)

lemma activated_erase: "activated (erase_marketplaceInfo x) = activated x"
  by (simp add: activated_def erase_marketplaceInfo_def)

lemma status_erase: "status (erase_marketplaceInfo x) = status x"
  by (simp add: erase_marketplaceInfo_def)

lemma erase_filter:
  "map erase_marketplaceInfo (filter activated xs) = filter activated (map erase_marketplaceInfo xs)"
  by (simp add: filter_map comp_def activated_erase)

text \<open>
  Claim C6. When no profile is set and \<open>_resolveExtensions\<close> returns \<open>r\<close>: every
  record of \<open>r\<close> has a null \<open>profileInfo\<close>; \<open>r\<close> is the list of candidates that pass
  the filter, in their order, that is in strictly ascending \<open>originalIndex\<close>; and
  whatever list the marketplace service holds, in whatever order, the result is the
  same up to the \<open>marketplaceInfo\<close> fields. (The status map is a function of the
  identifier: it has no order of iteration.)
\<close>

theorem resolve_without_trace:
  assumes "editor_profileInfo ed = None" and "resolveExtensions ed = Inr r"
  shows "(\<forall>x\<in>set r. profileInfo x = None) \<and>
         r = filter activated (build_result ed) \<and>
         map originalIndex r = filter (activated_at ed) [0..<length (extensionsDescriptions ed)] \<and>
         sorted_wrt (<) (map originalIndex r) \<and>
         (\<forall>l. \<exists>r'. resolveExtensions (ed\<lparr>extensionsWorkbenchService_local := l\<rparr>) = Inr r' \<and>
                    map erase_marketplaceInfo r' = map erase_marketplaceInfo r)"
proof -
  from assms have st: "\<forall>x\<in>set (build_result ed). status x \<noteq> None"
    and r: "r = filter activated (build_result ed)"
    by (simp_all add: resolve_without_profile)
  have 1: "\<forall>x\<in>set r. profileInfo x = None"
    using assms(1) by (auto simp: r build_result_member(5))
  have 3: "map originalIndex r = filter (activated_at ed) [0..<length (extensionsDescriptions ed)]"
    by (simp add: r originalIndex_kept)
  have "sorted_wrt (<) [0..<length (extensionsDescriptions ed)]" by (rule sorted_wrt_upt)
  then have 4: "sorted_wrt (<) (map originalIndex r)"
    unfolding 3 by (rule sorted_wrt_filter)
  have 5: "\<exists>r'. resolveExtensions (ed\<lparr>extensionsWorkbenchService_local := l\<rparr>) = Inr r' \<and>
                 map erase_marketplaceInfo r' = map erase_marketplaceInfo r" for l
  proof -
    let ?ed' = "ed\<lparr>extensionsWorkbenchService_local := l\<rparr>"
    have e: "map erase_marketplaceInfo (build_result ?ed') = map erase_marketplaceInfo (build_result ed)"
      by (rule erase_build_result)
    have "status ` set (build_result ?ed') = status ` set (build_result ed)"
    proof -
      have "map status (build_result ?ed') = map status (map erase_marketplaceInfo (build_result ?ed'))"
        by (simp add: status_erase)
      also have "\<dots> = map status (build_result ed)"
        by (simp add: e status_erase)
      finally have "set (map status (build_result ?ed')) = set (map status (build_result ed))" by simp
      then show ?thesis by simp
    qed
    with st have st': "\<forall>x\<in>set (build_result ?ed'). status x \<noteq> None"
      by (metis image_iff)
    have p: "editor_profileInfo ?ed' = None" using assms(1) by simp
    have "resolveExtensions ?ed' = Inr (filter activated (build_result ?ed'))"
      using st' by (simp add: resolve_without_profile [OF p])
    moreover have "map erase_marketplaceInfo (filter activated (build_result ?ed')) =
                   map erase_marketplaceInfo r"
      by (simp add: r erase_filter e)
    ultimately show ?thesis by blast
  qed
  from 1 r 3 4 5 show ?thesis by blast
qed

theorem resolve_without_trace_witness:
  "editor_profileInfo example_editor = None \<and>
   resolveExtensions example_editor = Inr example_result \<and>
   map originalIndex example_result = [0, 2] \<and>
   sorted_wrt (<) (map originalIndex example_result) \<and>
   map_sum id (map originalIndex)
     (resolveExtensions (example_editor\<lparr>extensionsWorkbenchService_local := example_marketplace\<rparr>)) =
     Inr [0, 2]"
proof -
  have a: "editor_profileInfo example_editor = None" by (simp add: example_editor_def)
  have b: "resolveExtensions example_editor = Inr example_result"
    by (rule example_editor_resolves)
  note t = resolve_without_trace [OF a b]
  have c: "map originalIndex example_result = [0, 2]" by (simp add: example_result_def)
  from t have d: "sorted_wrt (<) (map originalIndex example_result)" by blast
  from t obtain r' where
    r': "resolveExtensions (example_editor\<lparr>extensionsWorkbenchService_local := example_marketplace\<rparr>) = Inr r'"
    and e: "map erase_marketplaceInfo r' = map erase_marketplaceInfo example_result"
    by blast
  have "map originalIndex r' = map originalIndex (map erase_marketplaceInfo r')"
    by (simp add: erase_marketplaceInfo_def)
  also have "\<dots> = [0, 2]" unfolding e by (simp add: example_result_def erase_marketplaceInfo_def)
  finally have f: "map originalIndex r' = [0, 2]" .
  from a b c d r' f show ?thesis by simp
qed

section \<open>The profile session\<close>

lemma setState_fields:
  "profileSession (setState s a) = profileSession a" "state (setState s a) = s"
  by (simp_all add: setState_def update_def)

lemma consistent_new_world: "consistent (new_world ed)"
  by (simp add: consistent_def new_world_def action_defs)

lemma step_consistent:
  assumes "consistent w" "step ev w = Some w'"
  shows "consistent w'"
proof (cases ev)
  case Run
  then show ?thesis using assms
    by (auto simp: consistent_def run_def action_defs Let_def split: ProfileSessionState.splits)
next
  case (StartFulfilled v)
  then show ?thesis using assms
    by (auto simp: consistent_def start_fulfilled_def action_defs
        split: ProfileSessionState.splits if_splits)
next
  case (StartRejected err)
  then show ?thesis using assms
    by (auto simp: consistent_def start_rejected_def action_defs
        split: ProfileSessionState.splits if_splits)
next
  case (StopFulfilled result)
  then show ?thesis using assms
    by (auto simp: consistent_def stop_fulfilled_def action_defs
        split: ProfileSessionState.splits if_splits option.splits prod.splits)
next
  case (StopRejected err)
  then show ?thesis using assms
    by (auto simp: consistent_def stop_rejected_def action_defs
        split: ProfileSessionState.splits if_splits)
next
  case (EditorInputs l st ds)
  then show ?thesis using assms
    by (auto simp: consistent_def split: ProfileSessionState.splits)
qed

lemma exec_consistent:
  assumes "consistent w" "exec evs w = Some w'"
  shows "consistent w'"
  using assms
proof (induction evs arbitrary: w)
  case Nil
  then show ?case by simp
next
  case (Cons ev evs)
  then show ?case by (auto split: option.splits dest: step_consistent)
qed

lemma reachable_consistent: "exec evs (new_world ed) = Some w \<Longrightarrow> consistent w"
  using consistent_new_world exec_consistent by blast

lemma consistent_pending:
  assumes "consistent w"
  shows "pending_start w + pending_stop w \<le> 1"
    and "0 < pending_start w \<Longrightarrow> state (action w) = State_Starting"
    and "0 < pending_stop w \<Longrightarrow> state (action w) = State_Stopping"
    and "(profileSession (action w) \<noteq> None) = (state (action w) = State_Running)"
  using assms by (auto simp: consistent_def split: ProfileSessionState.splits)

lemma step_calls:
  assumes "step ev w = Some w'"
  shows "(ev = Run \<and> state (action w) = State_None \<and> new_calls w w' = [Call_startExtensionHostProfile]) \<or>
         (ev = Run \<and> state (action w) = State_Running \<and>
            (new_calls w w' = [] \<or> (\<exists>h. profileSession (action w) = Some h \<and> new_calls w w' = [Call_stop h]))) \<or>
         (\<forall>h. Call_startExtensionHostProfile \<notin> set (new_calls w w') \<and> Call_stop h \<notin> set (new_calls w w'))"
proof (cases ev)
  case Run
  then show ?thesis using assms
    by (cases "state (action w)")
       (auto simp: run_def setState_fields Let_def new_calls_def split: option.splits)
next
  case (StartFulfilled v)
  then show ?thesis using assms
    by (auto simp: start_fulfilled_def new_calls_def split: if_splits)
next
  case (StartRejected err)
  then show ?thesis using assms
    by (auto simp: start_rejected_def new_calls_def split: if_splits)
next
  case (StopFulfilled result)
  then show ?thesis using assms
    by (auto simp: stop_fulfilled_def new_calls_def split: if_splits option.splits prod.splits)
next
  case (StopRejected err)
  then show ?thesis using assms
    by (auto simp: stop_rejected_def new_calls_def split: if_splits)
next
  case (EditorInputs l st ds)
  then show ?thesis using assms by (auto simp: new_calls_def)
qed

lemma run_ignored:
  "state (action w) = State_Starting \<or> state (action w) = State_Stopping \<Longrightarrow> run w = (None, w)"
  by (auto simp: run_def)

lemma exec_starting: "exec [Run, Run] (new_world example_editor) = Some example_starting"
  by (simp add: world_eval example_starting_def)

lemma exec_running: "exec [Run, StartFulfilled 7] (new_world example_editor) = Some example_running"
  by (simp add: world_eval example_running_def)

lemma exec_stopping:
  "exec [Run, StartFulfilled 7, Run, Run] (new_world example_editor) = Some example_stopping"
  by (simp add: world_eval example_stopping_def)

lemma step_start_new: "step Run (new_world example_editor) = Some example_starting"
  by (simp add: world_eval example_starting_def)

lemma step_stop_running: "step Run example_running = Some example_stopping"
  by (simp add: world_eval example_running_def example_stopping_def)

text \<open>
  Claim C7. A call of \<open>run()\<close> in the state \<open>Starting\<close> or \<open>Stopping\<close> changes nothing
  and makes no call. A start request is made only by \<open>run()\<close> in the state \<open>None\<close>, a
  stop request only by \<open>run()\<close> in the state \<open>Running\<close>. After every sequence of events
  at most one start or stop request is outstanding, a start request only in the state
  \<open>Starting\<close> and a stop request only in the state \<open>Stopping\<close>.
\<close>

theorem run_guarded:
  "(state (action w) = State_Starting \<or> state (action w) = State_Stopping \<longrightarrow> run w = (None, w)) \<and>
   (step ev w = Some w' \<and> Call_startExtensionHostProfile \<in> set (new_calls w w') \<longrightarrow>
      ev = Run \<and> state (action w) = State_None) \<and>
   (step ev w = Some w' \<and> Call_stop h \<in> set (new_calls w w') \<longrightarrow>
      ev = Run \<and> state (action w) = State_Running) \<and>
   (exec evs (new_world ed) = Some w \<longrightarrow>
      pending_start w + pending_stop w \<le> 1 \<and>
      (0 < pending_start w \<longrightarrow> state (action w) = State_Starting) \<and>
      (0 < pending_stop w \<longrightarrow> state (action w) = State_Stopping))"
proof -
  have 1: "run w = (None, w)"
    if "state (action w) = State_Starting \<or> state (action w) = State_Stopping"
    using that by (rule run_ignored)
  have 2: "ev = Run \<and> state (action w) = State_None"
    if "step ev w = Some w' \<and> Call_startExtensionHostProfile \<in> set (new_calls w w')"
    using that step_calls [of ev w w'] by auto
  have 3: "ev = Run \<and> state (action w) = State_Running"
    if "step ev w = Some w' \<and> Call_stop h \<in> set (new_calls w w')"
    using that step_calls [of ev w w'] by auto
  have 4: "pending_start w + pending_stop w \<le> 1 \<and>
      (0 < pending_start w \<longrightarrow> state (action w) = State_Starting) \<and>
      (0 < pending_stop w \<longrightarrow> state (action w) = State_Stopping)"
    if "exec evs (new_world ed) = Some w"
    using consistent_pending(1-3) [OF reachable_consistent [OF that]] by blast
  from 1 2 3 4 show ?thesis by blast
qed

theorem run_guarded_witness:
  "exec [Run, Run] (new_world example_editor) = Some example_starting \<and>
   state (action example_starting) = State_Starting \<and>
   run example_starting = (None, example_starting) \<and>
   pending_start example_starting + pending_stop example_starting \<le> 1 \<and>
   step Run (new_world example_editor) = Some example_starting \<and>
   Call_startExtensionHostProfile \<in> set (new_calls (new_world example_editor) example_starting) \<and>
   state (action (new_world example_editor)) = State_None \<and>
   step Run example_running = Some example_stopping \<and>
   Call_stop 7 \<in> set (new_calls example_running example_stopping) \<and>
   state (action example_running) = State_Running"
proof -
  have a: "exec [Run, Run] (new_world example_editor) = Some example_starting"
    by (rule exec_starting)
  have b: "state (action example_starting) = State_Starting" by (simp add: example_starting_def)
  have c: "step Run example_running = Some example_stopping" by (rule step_stop_running)
  have d: "Call_stop 7 \<in> set (new_calls example_running example_stopping)"
    by (simp add: new_calls_def example_running_def example_stopping_def)
  have g: "step Run (new_world example_editor) = Some example_starting" by (rule step_start_new)
  have h: "Call_startExtensionHostProfile \<in> set (new_calls (new_world example_editor) example_starting)"
    by (simp add: new_calls_def new_world_def example_starting_def)
  note t0 = run_guarded [of "new_world example_editor" Run example_starting 7 "[]" example_editor]
  from t0 g h have i: "state (action (new_world example_editor)) = State_None" by blast
  note t1 = run_guarded [of example_starting Run example_starting 7 "[Run, Run]" example_editor]
  note t2 = run_guarded [of example_running Run example_stopping 7 "[]" example_editor]
  from t1 a b have e: "run example_starting = (None, example_starting) \<and>
      pending_start example_starting + pending_stop example_starting \<le> 1" by blast
  from t2 c d have f: "state (action example_running) = State_Running" by blast
  from a b c d e f g h i show ?thesis by blast
qed

text \<open>
  Claim C8. When an outstanding start request or stop request fails, the state is
  \<open>None\<close> afterwards, the one call made is \<open>onUnexpectedError\<close> with the error (no new
  start request, no \<open>setProfileInfo\<close>), the parent editor is as it was, the session
  handle is null and no request is outstanding.
\<close>

theorem failure_returns_to_idle:
  assumes "exec evs (new_world ed) = Some w"
    and "step (StartRejected err) w = Some w' \<or> step (StopRejected err) w = Some w'"
  shows "state (action w') = State_None \<and>
         new_calls w w' = [Call_onUnexpectedError err] \<and>
         parentEditor w' = parentEditor w \<and>
         profileSession (action w') = None \<and>
         pending_start w' = 0 \<and> pending_stop w' = 0"
proof -
  have c: "consistent w" using assms(1) by (rule reachable_consistent)
  from assms(2) show ?thesis
  proof
    assume "step (StartRejected err) w = Some w'"
    then show ?thesis using c
      by (auto simp: consistent_def start_rejected_def action_defs new_calls_def
          split: if_splits ProfileSessionState.splits)
  next
    assume "step (StopRejected err) w = Some w'"
    then show ?thesis using c
      by (auto simp: consistent_def stop_rejected_def action_defs new_calls_def
          split: if_splits ProfileSessionState.splits)
  qed
qed

theorem failure_returns_to_idle_witness:
  "exec [Run, Run] (new_world example_editor) = Some example_starting \<and>
   step (StartRejected ''failed'') example_starting = Some example_idle_after_start_failure \<and>
   state (action example_idle_after_start_failure) = State_None \<and>
   new_calls example_starting example_idle_after_start_failure = [Call_onUnexpectedError ''failed''] \<and>
   exec [Run, StartFulfilled 7, Run, Run] (new_world example_editor) = Some example_stopping \<and>
   step (StopRejected ''failed'') example_stopping = Some example_idle_after_failure \<and>
   state (action example_idle_after_failure) = State_None \<and>
   new_calls example_stopping example_idle_after_failure = [Call_onUnexpectedError ''failed''] \<and>
   parentEditor example_idle_after_failure = parentEditor example_stopping \<and>
   pending_start example_idle_after_failure = 0 \<and> pending_stop example_idle_after_failure = 0"
proof -
  have a: "exec [Run, StartFulfilled 7, Run, Run] (new_world example_editor) = Some example_stopping"
    by (rule exec_stopping)
  have b: "step (StopRejected ''failed'') example_stopping = Some example_idle_after_failure"
    by (simp add: world_eval example_stopping_def example_idle_after_failure_def)
  from b have b': "step (StartRejected ''failed'') example_stopping = Some example_idle_after_failure \<or>
      step (StopRejected ''failed'') example_stopping = Some example_idle_after_failure" ..
  have c: "exec [Run, Run] (new_world example_editor) = Some example_starting"
    by (rule exec_starting)
  have d: "step (StartRejected ''failed'') example_starting = Some example_idle_after_start_failure"
    by (simp add: world_eval example_starting_def example_idle_after_start_failure_def)
  from d have d': "step (StartRejected ''failed'') example_starting = Some example_idle_after_start_failure \<or>
      step (StopRejected ''failed'') example_starting = Some example_idle_after_start_failure" ..
  from failure_returns_to_idle [OF a b'] failure_returns_to_idle [OF c d'] a b c d
  show ?thesis by simp
qed

text \<open>
  Claim C10. After every sequence of events, \<open>_profileSession\<close> is non-null if and
  only if the state is \<open>Running\<close>; in particular it is null in the state \<open>Stopping\<close>.
\<close>

theorem session_iff_running:
  assumes "exec evs (new_world ed) = Some w"
  shows "(profileSession (action w) \<noteq> None) = (state (action w) = State_Running)"
  using consistent_pending(4) [OF reachable_consistent [OF assms]] .

theorem session_iff_running_witness:
  "exec [Run, StartFulfilled 7, Run, Run] (new_world example_editor) = Some example_stopping \<and>
   profileSession (action example_stopping) = None \<and>
   state (action example_stopping) \<noteq> State_Running \<and>
   exec [Run, StartFulfilled 7] (new_world example_editor) = Some example_running \<and>
   profileSession (action example_running) \<noteq> None \<and>
   state (action example_running) = State_Running"
proof -
  have a: "exec [Run, StartFulfilled 7, Run, Run] (new_world example_editor) = Some example_stopping"
    by (rule exec_stopping)
  have b: "exec [Run, StartFulfilled 7] (new_world example_editor) = Some example_running"
    by (rule exec_running)
  have c: "profileSession (action example_stopping) = None" by (simp add: example_stopping_def)
  have d: "profileSession (action example_running) \<noteq> None" by (simp add: example_running_def)
  from session_iff_running [OF a] c have e: "state (action example_stopping) \<noteq> State_Running"
    by simp
  from session_iff_running [OF b] d have f: "state (action example_running) = State_Running"
    by simp
  from a b c d e f show ?thesis by blast
qed

section \<open>Segments in order\<close>

lemma spec_intervals_bounds:
  assumes "\<forall>pr\<in>set ps. 0 \<le> snd pr" "iv \<in> set (spec_intervals cur ps l)"
  shows "cur \<le> fst iv \<and> fst iv \<le> snd iv"
  using assms
proof (induction ps arbitrary: cur)
  case Nil
  then show ?case by simp
next
  case (Cons pr ps)
  obtain l' d where pr: "pr = (l', d)" by (cases pr)
  with Cons.prems have d: "0 \<le> d" and rest: "\<forall>q\<in>set ps. 0 \<le> snd q" by auto
  from Cons.prems(2) consider "iv = (cur, cur + d)" | "iv \<in> set (spec_intervals (cur + d) ps l)"
    by (auto simp: pr split: if_splits)
  then show ?case
  proof cases
    case 1
    with d show ?thesis by simp
  next
    case 2
    from Cons.IH [OF rest 2] d show ?thesis by simp
  qed
qed

lemma spec_intervals_precedes:
  assumes "\<forall>pr\<in>set ps. 0 \<le> snd pr"
  shows "sorted_wrt precedes (spec_intervals cur ps l)"
  using assms
proof (induction ps arbitrary: cur)
  case Nil
  then show ?case by simp
next
  case (Cons pr ps)
  obtain l' d where pr: "pr = (l', d)" by (cases pr)
  with Cons.prems have rest: "\<forall>q\<in>set ps. 0 \<le> snd q" by auto
  have "\<forall>iv\<in>set (spec_intervals (cur + d) ps l). precedes (cur, cur + d) iv"
    using spec_intervals_bounds [OF rest] by (simp add: precedes_def)
  with Cons.IH [OF rest] show ?case by (simp add: pr)
qed

lemma precedes_fst:
  assumes "sorted_wrt precedes ivs" "\<forall>iv\<in>set ivs. fst iv \<le> snd iv"
  shows "sorted (map fst ivs)"
proof -
  have "sorted_wrt (\<lambda>a b. fst a \<le> fst b) ivs"
    by (rule sorted_wrt_mono_rel [OF _ assms(1)]) (use assms(2) in \<open>auto simp: precedes_def\<close>)
  then show ?thesis by (simp add: sorted_wrt_map)
qed

lemma precedes_disjoint: "precedes a b \<Longrightarrow> disjoint_intervals a b"
  by (auto simp: precedes_def disjoint_intervals_def)

text \<open>Against claim C9 as stated: with the deltas 10, -5, 3 for A, B, A from time 0, the
  segments of A are (0, 10) and (5, 8), which overlap.\<close>

theorem segments_overlap_counterexample:
  "segment_pairs (segments (profile_of negative_delta_trace ''A'')) = [(0, 10), (5, 8)] \<and>
   \<not> sorted_wrt precedes (segment_pairs (segments (profile_of negative_delta_trace ''A''))) \<and>
   \<not> sorted_wrt disjoint_intervals (segment_pairs (segments (profile_of negative_delta_trace ''A'')))"
proof -
  have a: "segment_pairs (segments (profile_of negative_delta_trace ''A'')) = [(0, 10), (5, 8)]"
    by (simp add: profile_eval negative_delta_trace_def)
  have "(5::int) \<in> {0..<10} \<inter> {5..<8}" by simp
  then have "{0..<10} \<inter> {5..<8} \<noteq> ({}::int set)" by blast
  then show ?thesis unfolding a by (simp add: precedes_def disjoint_intervals_def)
qed

text \<open>
  Claim C9, amended. For every profile whose deltas are all non-negative, the
  segments of each label, in the order produced, are such that every earlier segment
  ends no later than every later one starts; they are pairwise disjoint and their
  start times ascend.
\<close>

theorem segments_ordered:
  assumes "\<forall>d\<in>set (deltas p). 0 \<le> d"
  shows "sorted_wrt precedes (segment_pairs (segments (profile_of p l))) \<and>
         sorted_wrt disjoint_intervals (segment_pairs (segments (profile_of p l))) \<and>
         sorted (map fst (segment_pairs (segments (profile_of p l))))"
proof -
  let ?ivs = "spec_intervals (startTime p) (trace_pairs p) l"
  have nonneg: "\<forall>pr\<in>set (trace_pairs p). 0 \<le> snd pr"
    using assms snd_trace_pairs [of p] by (metis image_eqI list.set_map)
  have eq: "segment_pairs (segments (profile_of p l)) = ?ivs"
    by (simp add: segments_profile_of segment_pairs_flatten)
  have p: "sorted_wrt precedes ?ivs" using nonneg by (rule spec_intervals_precedes)
  then have "sorted_wrt disjoint_intervals ?ivs"
    by (rule sorted_wrt_mono_rel [rotated]) (simp add: precedes_disjoint)
  moreover have "sorted (map fst ?ivs)"
    using p spec_intervals_bounds [OF nonneg] by (intro precedes_fst) auto
  ultimately show ?thesis using p by (simp add: eq)
qed

theorem segments_ordered_witness:
  "0 \<le> (500::int) \<and> 0 \<le> (300::int) \<and> 0 \<le> (200::int) \<and>
   sorted_wrt precedes (segment_pairs (segments (profile_of example_trace ''A''))) \<and>
   sorted_wrt disjoint_intervals (segment_pairs (segments (profile_of example_trace ''A''))) \<and>
   sorted (map fst (segment_pairs (segments (profile_of example_trace ''A''))))"
proof -
  have a: "\<forall>d\<in>set (deltas example_trace). 0 \<le> d" by (simp add: example_trace_def)
  show ?thesis using segments_ordered [OF a, of "''A''"] by simp
qed

end
